theory Spec2Isabelle
  imports Complex_Main "HOL-Library.Sublist"
begin

section \<open>Moderation scanner (utils/contentModeration)\<close>

text \<open>
  A JavaScript string is a sequence of UTF-16 code units. The model covers the texts whose
  code units are below 256 (Basic Latin and Latin-1 Supplement): a text is a \<open>string\<close>,
  one \<open>char\<close> per code unit, and \<open>length\<close> is JavaScript's \<open>.length\<close>. On this range
  every character class and the lower-casing below are the ones of the ECMAScript
  specification.
\<close>

subsection \<open>Character classes of the regular expressions\<close>

definition upperAZ :: "char \<Rightarrow> bool" where
  \<comment> \<open>the class \<open>[A-Z]\<close>\<close>
  "upperAZ c = (65 \<le> (of_char c :: nat) \<and> (of_char c :: nat) \<le> 90)"

definition wordChar :: "char \<Rightarrow> bool" where
  \<comment> \<open>the class \<open>\w\<close>, that is \<open>[A-Za-z0-9_]\<close>\<close>
  "wordChar c =
     (let n = (of_char c :: nat)
      in (48 \<le> n \<and> n \<le> 57) \<or> (65 \<le> n \<and> n \<le> 90) \<or> n = 95 \<or> (97 \<le> n \<and> n \<le> 122))"

definition spaceChar :: "char \<Rightarrow> bool" where
  \<comment> \<open>the class \<open>\s\<close> below 256: TAB, LF, VT, FF, CR, SPACE and NO-BREAK SPACE;
      \<open>trim\<close> strips the same set\<close>
  "spaceChar c =
     (let n = (of_char c :: nat)
      in (9 \<le> n \<and> n \<le> 13) \<or> n = 32 \<or> n = 160)"

definition lineTerminator :: "char \<Rightarrow> bool" where
  \<comment> \<open>the characters that \<open>.\<close> does not match: LF and CR (U+2028 and U+2029 are above 255)\<close>
  "lineTerminator c = ((of_char c :: nat) = 10 \<or> (of_char c :: nat) = 13)"

definition toLowerChar :: "char \<Rightarrow> char" where
  \<comment> \<open>\<open>toLowerCase\<close> on one code unit: A-Z, and the Latin-1 capitals U+00C0..U+00DE
      without the multiplication sign U+00D7, move up by 32\<close>
  "toLowerChar c =
     (let n = (of_char c :: nat)
      in if (65 \<le> n \<and> n \<le> 90) \<or> (192 \<le> n \<and> n \<le> 222 \<and> n \<noteq> 215)
         then char_of (n + 32) else c)"

definition toLowerCase :: "string \<Rightarrow> string" where
  "toLowerCase text = map toLowerChar text"

subsection \<open>normalizeText\<close>

definition replaceSpecial :: "string \<Rightarrow> string" where
  \<comment> \<open>\<open>.replace(/[^\w\s]/g, ' ')\<close>\<close>
  "replaceSpecial text =
     map (\<lambda>c. if wordChar c \<or> spaceChar c then c else CHR '' '') text"

function collapseSpaces :: "string \<Rightarrow> string" where
  \<comment> \<open>\<open>.replace(/\s+/g, ' ')\<close>: every maximal run of white space becomes one space\<close>
  "collapseSpaces [] = []"
| "collapseSpaces (c # cs) =
     (if spaceChar c then CHR '' '' # collapseSpaces (dropWhile spaceChar cs)
      else c # collapseSpaces cs)"
  by pat_completeness auto
termination
  by (relation "measure length") (auto simp: length_dropWhile_le less_Suc_eq_le)

definition trim :: "string \<Rightarrow> string" where
  "trim text = rev (dropWhile spaceChar (rev (dropWhile spaceChar text)))"

definition normalizeText :: "string \<Rightarrow> string" where
  "normalizeText text = trim (collapseSpaces (replaceSpecial (toLowerCase text)))"

subsection \<open>containsAbusiveLanguage and moderateContent\<close>

definition abusiveWords :: "string list" where
  "abusiveWords =
     [''damn'', ''hell'', ''crap'', ''stupid'', ''idiot'', ''fool'',
      ''f***'', ''s***'', ''b****'', ''a**'', ''a***'',
      ''shut up'', ''you are wrong'', ''you dont know'', ''you are lying'',
      ''hate you'', ''kill yourself'', ''you should die'',
      ''buy now'', ''click here'', ''free money'', ''get rich quick'']"

definition includes_js :: "string \<Rightarrow> string \<Rightarrow> bool" where
  \<comment> \<open>\<open>text.includes(word)\<close>: \<open>word\<close> occurs in \<open>text\<close> as a contiguous substring\<close>
  "includes_js text word = sublist word text"

definition excessiveCaps :: "string \<Rightarrow> bool" where
  \<comment> \<open>\<open>(text.match(/[A-Z]/g) || []).length > text.length * 0.5 && text.length > 10\<close>\<close>
  "excessiveCaps text =
     (length text < 2 * length (filter upperAZ text) \<and> 10 < length text)"

fun repeatedChars :: "string \<Rightarrow> bool" where
  \<comment> \<open>\<open>/(.)\1{4,}/.test(text)\<close>: at some position a character that \<open>.\<close> matches is
      followed by four more copies of itself\<close>
  "repeatedChars (a # b # c # d # e # cs) =
     (if \<not> lineTerminator a \<and> a = b \<and> a = c \<and> a = d \<and> a = e then True
      else repeatedChars (b # c # d # e # cs))"
| "repeatedChars cs = False"

fun dedupe :: "string list \<Rightarrow> string list" where
  \<comment> \<open>\<open>[...new Set(xs)]\<close>: the first occurrence of each element, in order\<close>
  "dedupe [] = []"
| "dedupe (x # xs) = x # dedupe (filter (\<lambda>y. y \<noteq> x) xs)"

datatype js_value =
  JSUndefined | JSNull | JSBoolean bool | JSNumber int | JSBigInt int | JSString string
| JSSymbol | JSFunction | JSObject

fun falsy :: "js_value \<Rightarrow> bool" where
  "falsy JSUndefined = True"
| "falsy JSNull = True"
| "falsy (JSBoolean b) = (\<not> b)"
| "falsy (JSNumber n) = (n = 0)"
| "falsy (JSBigInt n) = (n = 0)"
| "falsy (JSString s) = (s = [])"
| "falsy JSSymbol = False"
| "falsy JSFunction = False"
| "falsy JSObject = False"

fun typeof :: "js_value \<Rightarrow> string" where
  "typeof JSUndefined = ''undefined''"
| "typeof JSNull = ''object''"
| "typeof (JSBoolean b) = ''boolean''"
| "typeof (JSNumber n) = ''number''"
| "typeof (JSBigInt n) = ''bigint''"
| "typeof (JSString s) = ''string''"
| "typeof JSSymbol = ''symbol''"
| "typeof JSFunction = ''function''"
| "typeof JSObject = ''object''"

record scan_result =
  isAbusive :: bool
  detectedWords :: "string list"
  severity :: "string option"

definition matchWords :: "string \<Rightarrow> string list" where
  \<comment> \<open>the \<open>for (const word of abusiveWords)\<close> loop: the listed words, in order, whose
      normalised form occurs in the normalised text\<close>
  "matchWords normalizedText =
     filter (\<lambda>word. includes_js normalizedText (normalizeText word)) abusiveWords"

definition scanText :: "string \<Rightarrow> scan_result" where
  \<comment> \<open>the body of containsAbusiveLanguage behind its guard\<close>
  "scanText text =
     (let normalizedText = normalizeText text;
          detected = matchWords normalizedText;
          detected' = (if excessiveCaps text \<or> repeatedChars text
                       then detected @ [''spam_pattern''] else detected)
      in \<lparr> isAbusive = 0 < length detected',
           detectedWords = dedupe detected',
           severity = Some (if 2 < length detected' then ''high''
                            else if 0 < length detected' then ''medium'' else ''low'') \<rparr>)"

definition containsAbusiveLanguage :: "js_value \<Rightarrow> scan_result" where
  "containsAbusiveLanguage text =
     (if falsy text \<or> typeof text \<noteq> ''string''
      then \<lparr> isAbusive = False, detectedWords = [], severity = None \<rparr>
      else (case text of
              JSString s \<Rightarrow> scanText s
            | _ \<Rightarrow> \<lparr> isAbusive = False, detectedWords = [], severity = None \<rparr>))"

definition moderateContent :: "string \<Rightarrow> string \<Rightarrow> scan_result" where
  \<comment> \<open>\<open>title ? `${title} ${content}` : content\<close>, on the strings of a request body\<close>
  "moderateContent content title =
     containsAbusiveLanguage
       (JSString (if title \<noteq> [] then title @ '' '' @ content else content))"

section \<open>Warning ledger and access gate (routes/forum)\<close>

subsection \<open>Numbers in template strings, dates\<close>

function showNat :: "nat \<Rightarrow> string" where
  \<comment> \<open>the decimal digits of a natural number\<close>
  "showNat n =
     (if n < 10 then [char_of (48 + n)]
      else showNat (n div 10) @ [char_of (48 + n mod 10)])"
  by pat_completeness auto
termination
  by (relation "measure id") auto

definition showInt :: "int \<Rightarrow> string" where
  \<comment> \<open>\<open>`${n}`\<close> for an integer \<open>n\<close>\<close>
  "showInt n = (if n < 0 then CHR ''-'' # showNat (nat (- n)) else showNat (nat n))"

fun join :: "string \<Rightarrow> string list \<Rightarrow> string" where
  \<comment> \<open>\<open>xs.join(sep)\<close>\<close>
  "join sep [] = []"
| "join sep [x] = x"
| "join sep (x # y # ys) = x @ sep @ join sep (y # ys)"

text \<open>
  A \<open>Date\<close> is its time value, the milliseconds since the epoch, as an \<open>int\<close>; comparing
  and subtracting dates compares and subtracts the time values. Every \<open>new Date()\<close> of the
  source is a reading of the clock, passed to the model as an argument, one per reading.

  \<open>getDate\<close> and \<open>setDate\<close> work on local time. The time zone of the server is not part
  of the source, so it is a parameter of the model: the two conversions that ECMAScript
  calls \<open>LocalTime\<close> (from a time value to local time) and \<open>UTC\<close> (from local time back
  to a time value).
\<close>

record time_zone =
  LocalTime :: "int \<Rightarrow> int"
  UTC :: "int \<Rightarrow> int"

definition msPerDay :: int where
  \<comment> \<open>\<open>1000 * 60 * 60 * 24\<close>\<close>
  "msPerDay = 1000 * 60 * 60 * 24"

definition addDays :: "time_zone \<Rightarrow> int \<Rightarrow> int \<Rightarrow> int" where
  \<comment> \<open>\<open>d.setDate(d.getDate() + n)\<close>: the local time of \<open>d\<close> moved by \<open>n\<close> calendar days,
      the time within the day kept, and converted back; across a change of the zone's
      offset this differs from \<open>d + n * msPerDay\<close>\<close>
  "addDays tz d n = UTC tz (LocalTime tz d + n * msPerDay)"

definition ceilDiv :: "int \<Rightarrow> int \<Rightarrow> int" where
  \<comment> \<open>\<open>Math.ceil(a / b)\<close> for integers \<open>a\<close> and \<open>b > 0\<close>; the floating-point quotient
      of a difference of dates by one day rounds to no integer it does not equal while
      it is below \<open>2^27\<close> days, as it is for any block date against a present-day clock\<close>
  "ceilDiv a b = - ((- a) div b)"

subsection \<open>The user document and its store\<close>

record warning_entry =
  entryDate :: int
  entryReason :: string
  entryContent :: string

record user =
  forumWarnings :: "int option"
  forumWarningHistory :: "warning_entry list option"
  isBlockedFromForum :: bool
  forumBlockedUntil :: "int option"

text \<open>
  \<open>None\<close> is JavaScript's \<open>undefined\<close> or \<open>null\<close>. The store holds the saved copy of the
  one user document the request is about: \<open>None\<close> when \<open>User.findById\<close> finds nothing,
  and \<open>user.save()\<close> replaces it by the document in memory. Reading and saving are taken
  to succeed; a failing store (the answer 500 of checkForumAccess) is outside the model.
\<close>

type_synonym store = "user option"

definition save :: "user \<Rightarrow> store" where
  "save user = Some user"

definition orZero :: "int option \<Rightarrow> int" where
  \<comment> \<open>\<open>x || 0\<close>\<close>
  "orZero x = (case x of None \<Rightarrow> 0 | Some n \<Rightarrow> n)"

definition orEmpty :: "'a list option \<Rightarrow> 'a list" where
  \<comment> \<open>\<open>xs || []\<close>\<close>
  "orEmpty xs = (case xs of None \<Rightarrow> [] | Some ys \<Rightarrow> ys)"

subsection \<open>checkForumAccess\<close>

record json_body =
  error :: string
  bodyBlocked :: "bool option"
  bodyBlockedUntil :: "int option"
  bodyWarnings :: "int option"

datatype forum_response =
  Json nat json_body  \<comment> \<open>\<open>res.status(code).json(body)\<close>\<close>
| Next user           \<comment> \<open>\<open>req.user = user; next()\<close>\<close>

definition checkForumAccess :: "store \<Rightarrow> int \<Rightarrow> int \<Rightarrow> int \<Rightarrow> store \<times> forum_response" where
  \<comment> \<open>\<open>t1\<close>, \<open>t2\<close>, \<open>t3\<close>: the clock at the block test, at the computation of the days
      remaining and at the expiry test\<close>
  "checkForumAccess db t1 t2 t3 =
     (case db of
        None \<Rightarrow>
          (db, Json 404 \<lparr> error = ''User not found'', bodyBlocked = None,
                          bodyBlockedUntil = None, bodyWarnings = None \<rparr>)
      | Some user \<Rightarrow>
          if isBlockedFromForum user then
            (db, Json 403
               \<lparr> error = ''You have been blocked from the forum due to repeated violations of community guidelines.'',
                 bodyBlocked = Some True, bodyBlockedUntil = None,
                 bodyWarnings = forumWarnings user \<rparr>)
          else
            (case forumBlockedUntil user of
               None \<Rightarrow> (db, Next user)
             | Some until \<Rightarrow>
                 if t1 < until then
                   (let daysRemaining = ceilDiv (until - t2) msPerDay
                    in (db, Json 403
                          \<lparr> error = ''You are temporarily blocked from the forum. Access will be restored in ''
                                    @ showInt daysRemaining @ '' day(s).'',
                            bodyBlocked = Some True, bodyBlockedUntil = Some until,
                            bodyWarnings = forumWarnings user \<rparr>))
                 else if until \<le> t3 then
                   (let user' = user\<lparr> forumBlockedUntil := None \<rparr>
                    in (save user', Next user'))
                 else (db, Next user)))"

subsection \<open>handleContentModeration\<close>

record outcome =
  blocked :: bool
  warned :: "bool option"
  warnings :: "int option"
  message :: "string option"
  blockedUntil :: "int option"
  outcomeWords :: "string list option"  \<comment> \<open>the field \<open>detectedWords\<close> of the returned object\<close>

definition handleContentModeration ::
  "time_zone \<Rightarrow> user \<Rightarrow> store \<Rightarrow> string \<Rightarrow> string \<Rightarrow> int \<Rightarrow> int
     \<Rightarrow> user \<times> store \<times> outcome" where
  \<comment> \<open>\<open>tz\<close>: the time zone of the server; \<open>tHistory\<close>, \<open>tBlock\<close>: the clock at the history
      entry and at \<open>const blockUntil = new Date()\<close>; the result is the user document in
      memory, the store and the returned object\<close>
  "handleContentModeration tz user db content title tHistory tBlock =
     (let moderationResult = moderateContent content title
      in if isAbusive moderationResult then
           (let count = orZero (forumWarnings user) + 1;
                entry = \<lparr> entryDate = tHistory,
                          entryReason = ''Detected abusive language: ''
                                        @ join '', '' (detectedWords moderationResult),
                          entryContent = (if title \<noteq> [] then title @ '' '' @ content else content) \<rparr>;
                user1 = user\<lparr> forumWarnings := Some count,
                              forumWarningHistory := Some (orEmpty (forumWarningHistory user) @ [entry]) \<rparr>
            in if 3 \<le> count then
                 (let user2 = user1\<lparr> isBlockedFromForum := True \<rparr>
                  in (user2, save user2,
                      \<lparr> blocked = True, warned = None, warnings = Some count,
                        message = Some ''You have been permanently blocked from the forum due to repeated violations.'',
                        blockedUntil = None, outcomeWords = None \<rparr>))
               else if count = 2 then
                 (let blockUntil = addDays tz tBlock 7;
                      user2 = user1\<lparr> forumBlockedUntil := Some blockUntil \<rparr>
                  in (user2, save user2,
                      \<lparr> blocked = True, warned = None, warnings = Some count,
                        message = Some ''You have been temporarily blocked from the forum for 7 days due to repeated violations.'',
                        blockedUntil = Some blockUntil, outcomeWords = None \<rparr>))
               else
                 (user1, save user1,
                  \<lparr> blocked = False, warned = Some True, warnings = Some count,
                    message = Some (''Warning: Your content contains inappropriate language. You have ''
                                    @ showInt count
                                    @ '' warning(s). After 3 warnings, you will be permanently blocked.''),
                    blockedUntil = None,
                    outcomeWords = Some (detectedWords moderationResult) \<rparr>))
         else
           (user, db,
            \<lparr> blocked = False, warned = Some False, warnings = None, message = None,
              blockedUntil = None, outcomeWords = None \<rparr>))"

subsection \<open>Sequences of ledger calls\<close>

record ledger_call =
  callContent :: string
  callTitle :: string
  callTHistory :: int
  callTBlock :: int

definition ledgerStep :: "time_zone \<Rightarrow> user \<times> store \<Rightarrow> ledger_call \<Rightarrow> user \<times> store" where
  \<comment> \<open>one call of handleContentModeration; its returned object is dropped\<close>
  "ledgerStep tz st c =
     (case handleContentModeration tz (fst st) (snd st) (callContent c) (callTitle c)
             (callTHistory c) (callTBlock c) of
        (user', db', out) \<Rightarrow> (user', db'))"

definition runLedger ::
  "time_zone \<Rightarrow> user \<times> store \<Rightarrow> ledger_call list \<Rightarrow> user \<times> store" where
  "runLedger tz st cs = foldl (ledgerStep tz) st cs"

definition zeroValued :: "user \<Rightarrow> bool" where
  \<comment> \<open>a document that reads as no warnings, no history and no block\<close>
  "zeroValued user =
     (orZero (forumWarnings user) = 0 \<and> orEmpty (forumWarningHistory user) = []
      \<and> \<not> isBlockedFromForum user \<and> forumBlockedUntil user = None)"

definition newUser :: user where
  \<comment> \<open>the zero-valued moderation state of a new account\<close>
  "newUser = \<lparr> forumWarnings = Some 0, forumWarningHistory = Some [],
               isBlockedFromForum = False, forumBlockedUntil = None \<rparr>"

subsection \<open>Sample time zones\<close>

definition zoneIndia :: time_zone where
  \<comment> \<open>India Standard Time: five and a half hours ahead of UTC all year\<close>
  "zoneIndia = \<lparr> LocalTime = (\<lambda>t. t + 19800000), UTC = (\<lambda>t. t - 19800000) \<rparr>"

definition zoneNewYork2026 :: time_zone where
  \<comment> \<open>New York around 8 March 2026: five hours behind UTC until 07:00 UTC of that day
      (time value 1772953200000, local 02:00), four hours behind from then on (local 03:00,
      1772938800000 as a local time)\<close>
  "zoneNewYork2026 =
     \<lparr> LocalTime = (\<lambda>t. if t < 1772953200000 then t - 18000000 else t - 14400000),
       UTC = (\<lambda>t. if t < 1772938800000 then t + 18000000 else t + 14400000) \<rparr>"

section \<open>Evaluating the scanner\<close>

lemma normalizeText_words:
  "normalizeText ''damn'' = ''damn''"
  "normalizeText ''hell'' = ''hell''"
  "normalizeText ''crap'' = ''crap''"
  "normalizeText ''stupid'' = ''stupid''"
  "normalizeText ''idiot'' = ''idiot''"
  "normalizeText ''fool'' = ''fool''"
  "normalizeText ''f***'' = ''f''"
  "normalizeText ''s***'' = ''s''"
  "normalizeText ''b****'' = ''b''"
  "normalizeText ''a**'' = ''a''"
  "normalizeText ''a***'' = ''a''"
  "normalizeText ''shut up'' = ''shut up''"
  "normalizeText ''you are wrong'' = ''you are wrong''"
  "normalizeText ''you dont know'' = ''you dont know''"
  "normalizeText ''you are lying'' = ''you are lying''"
  "normalizeText ''hate you'' = ''hate you''"
  "normalizeText ''kill yourself'' = ''kill yourself''"
  "normalizeText ''you should die'' = ''you should die''"
  "normalizeText ''buy now'' = ''buy now''"
  "normalizeText ''click here'' = ''click here''"
  "normalizeText ''free money'' = ''free money''"
  "normalizeText ''get rich quick'' = ''get rich quick''"
  by (simp_all add: normalizeText_def trim_def replaceSpecial_def toLowerCase_def
        toLowerChar_def wordChar_def spaceChar_def)

lemma matchWords_sublist:
  "matchWords t = filter (\<lambda>word. sublist (normalizeText word) t) abusiveWords"
  by (simp add: matchWords_def includes_js_def)

lemma moderateContent_no_title:
  "content \<noteq> [] \<Longrightarrow> moderateContent content [] = scanText content"
  by (simp add: moderateContent_def containsAbusiveLanguage_def)

lemma normalizeText_damn: "normalizeText ''damn'' = ''damn''"
  by (rule normalizeText_words)

lemma normalizeText_ok: "normalizeText ''ok'' = ''ok''"
  by (simp add: normalizeText_def trim_def replaceSpecial_def toLowerCase_def
        toLowerChar_def wordChar_def spaceChar_def)

lemma matchWords_damn: "matchWords ''damn'' = [''damn'', ''a**'', ''a***'']"
  by (simp add: matchWords_sublist abusiveWords_def normalizeText_words sublist_code)

lemma matchWords_ok: "matchWords ''ok'' = []"
  by (simp add: matchWords_sublist abusiveWords_def normalizeText_words sublist_code)

lemma moderateContent_damn:
  "moderateContent ''damn'' [] =
     \<lparr> isAbusive = True, detectedWords = [''damn'', ''a**'', ''a***''],
       severity = Some ''high'' \<rparr>"
  by (simp add: moderateContent_no_title scanText_def normalizeText_damn matchWords_damn
        excessiveCaps_def)

lemma moderateContent_ok:
  "moderateContent ''ok'' [] =
     \<lparr> isAbusive = False, detectedWords = [], severity = Some ''low'' \<rparr>"
  by (simp add: moderateContent_no_title scanText_def normalizeText_ok matchWords_ok
        excessiveCaps_def)

section \<open>Properties of the warning ledger\<close>

subsection \<open>What one call does to the user document\<close>

lemma orZero_simps: "orZero None = 0" "orZero (Some n) = n"
  by (simp_all add: orZero_def)

lemma orEmpty_simps: "orEmpty None = []" "orEmpty (Some xs) = xs"
  by (simp_all add: orEmpty_def)

lemma showInt_small: "showInt 1 = ''1''" "showInt 2 = ''2''"
  by code_simp+

lemma msPerDay_value: "msPerDay = 86400000"
  by (simp add: msPerDay_def)

lemma addDays_local: "addDays tz d 7 = UTC tz (LocalTime tz d + 7 * 86400000)"
  by (simp add: addDays_def msPerDay_def)

lemma addDays_same_offset:
  assumes "LocalTime tz d = d + off"
    and "UTC tz (d + off + 7 * 86400000) = d + 7 * 86400000"
  shows "addDays tz d 7 = d + 7 * 86400000"
  using assms by (simp add: addDays_def msPerDay_def)

lemma addDays_zoneIndia: "addDays zoneIndia d 7 = d + 604800000"
  by (simp add: addDays_def msPerDay_def zoneIndia_def)

lemma addDays_across_daylight_saving:
  "addDays zoneNewYork2026 1772712000000 7 = 1773313200000"
  "1772712000000 + 7 * 86400000 = (1773316800000 :: int)"
  by (simp_all add: addDays_def msPerDay_def zoneNewYork2026_def)

lemma handle_clean:
  "\<not> isAbusive (moderateContent content title) \<Longrightarrow>
   handleContentModeration tz user db content title tH tB =
     (user, db, \<lparr> blocked = False, warned = Some False, warnings = None, message = None,
                  blockedUntil = None, outcomeWords = None \<rparr>)"
  by (simp add: handleContentModeration_def)

lemma handle_flagged_user:
  "isAbusive (moderateContent content title) \<Longrightarrow>
   fst (handleContentModeration tz user db content title tH tB) =
     user\<lparr> forumWarnings := Some (orZero (forumWarnings user) + 1),
           forumWarningHistory := Some (orEmpty (forumWarningHistory user) @
             [\<lparr> entryDate = tH,
                entryReason = ''Detected abusive language: ''
                              @ join '', '' (detectedWords (moderateContent content title)),
                entryContent = (if title \<noteq> [] then title @ '' '' @ content else content) \<rparr>]),
           isBlockedFromForum := (isBlockedFromForum user \<or> 2 \<le> orZero (forumWarnings user)),
           forumBlockedUntil := (if orZero (forumWarnings user) = 1 then Some (addDays tz tB 7)
                                 else forumBlockedUntil user) \<rparr>"
  by (simp add: handleContentModeration_def Let_def)

lemma handle_saves:
  "isAbusive (moderateContent content title) \<Longrightarrow>
   fst (snd (handleContentModeration tz user db content title tH tB)) =
     Some (fst (handleContentModeration tz user db content title tH tB))"
  by (simp add: handleContentModeration_def Let_def save_def)

lemma handle_count:
  "orZero (forumWarnings (fst (handleContentModeration tz user db content title tH tB))) =
     (if isAbusive (moderateContent content title) then orZero (forumWarnings user) + 1
      else orZero (forumWarnings user))"
  by (simp add: handleContentModeration_def Let_def orZero_def)

lemma handle_blocked:
  "isBlockedFromForum (fst (handleContentModeration tz user db content title tH tB)) =
     (if isAbusive (moderateContent content title)
      then isBlockedFromForum user \<or> 2 \<le> orZero (forumWarnings user)
      else isBlockedFromForum user)"
  by (simp add: handleContentModeration_def Let_def)

lemma handle_until:
  "forumBlockedUntil (fst (handleContentModeration tz user db content title tH tB)) =
     (if isAbusive (moderateContent content title) \<and> orZero (forumWarnings user) = 1
      then Some (addDays tz tB 7) else forumBlockedUntil user)"
  by (simp add: handleContentModeration_def Let_def)

lemma handle_outcome:
  "isAbusive (moderateContent content title) \<Longrightarrow>
   snd (snd (handleContentModeration tz user db content title tH tB)) =
     (let count = orZero (forumWarnings user) + 1 in
      if 3 \<le> count then
        \<lparr> blocked = True, warned = None, warnings = Some count,
          message = Some ''You have been permanently blocked from the forum due to repeated violations.'',
          blockedUntil = None, outcomeWords = None \<rparr>
      else if count = 2 then
        \<lparr> blocked = True, warned = None, warnings = Some count,
          message = Some ''You have been temporarily blocked from the forum for 7 days due to repeated violations.'',
          blockedUntil = Some (addDays tz tB 7), outcomeWords = None \<rparr>
      else
        \<lparr> blocked = False, warned = Some True, warnings = Some count,
          message = Some (''Warning: Your content contains inappropriate language. You have ''
                          @ showInt count
                          @ '' warning(s). After 3 warnings, you will be permanently blocked.''),
          blockedUntil = None,
          outcomeWords = Some (detectedWords (moderateContent content title)) \<rparr>)"
  by (simp add: handleContentModeration_def Let_def)

lemma ledgerStep_fst:
  "fst (ledgerStep tz st c) =
     fst (handleContentModeration tz (fst st) (snd st) (callContent c) (callTitle c)
            (callTHistory c) (callTBlock c))"
  by (simp add: ledgerStep_def split: prod.splits)

lemma runLedger_snoc: "runLedger tz st (cs @ [c]) = ledgerStep tz (runLedger tz st cs) c"
  by (simp add: runLedger_def)

lemma ledgerStep_count_mono:
  "orZero (forumWarnings (fst st)) \<le> orZero (forumWarnings (fst (ledgerStep tz st c)))"
  by (simp add: ledgerStep_fst handle_count)

lemma runLedger_count_mono:
  "orZero (forumWarnings (fst st)) \<le> orZero (forumWarnings (fst (runLedger tz st cs)))"
proof (induction cs rule: rev_induct)
  case Nil
  show ?case by (simp add: runLedger_def)
next
  case (snoc c cs)
  have "orZero (forumWarnings (fst (runLedger tz st cs)))
          \<le> orZero (forumWarnings (fst (ledgerStep tz (runLedger tz st cs) c)))"
    by (rule ledgerStep_count_mono)
  with snoc show ?case by (simp add: runLedger_snoc)
qed

lemma ledgerStep_blocked_inv:
  assumes "isBlockedFromForum (fst st) \<longrightarrow> 3 \<le> orZero (forumWarnings (fst st))"
  shows "isBlockedFromForum (fst (ledgerStep tz st c)) \<longrightarrow>
         3 \<le> orZero (forumWarnings (fst (ledgerStep tz st c)))"
  using assms by (auto simp: ledgerStep_fst handle_count handle_blocked split: if_splits)

lemma runLedger_blocked_inv:
  assumes "isBlockedFromForum (fst st) \<longrightarrow> 3 \<le> orZero (forumWarnings (fst st))"
  shows "isBlockedFromForum (fst (runLedger tz st cs)) \<longrightarrow>
         3 \<le> orZero (forumWarnings (fst (runLedger tz st cs)))"
proof (induction cs rule: rev_induct)
  case Nil
  show ?case using assms by (simp add: runLedger_def)
next
  case (snoc c cs)
  show ?case unfolding runLedger_snoc by (rule ledgerStep_blocked_inv) (rule snoc)
qed

subsection \<open>Sample calls\<close>

lemma ledgerStep_damn_count:
  "orZero (forumWarnings (fst (ledgerStep tz st
      \<lparr> callContent = ''damn'', callTitle = [], callTHistory = h, callTBlock = b \<rparr>))) =
   orZero (forumWarnings (fst st)) + 1"
  by (simp add: ledgerStep_fst handle_count moderateContent_damn)

lemma ledgerStep_damn_blocked:
  "isBlockedFromForum (fst (ledgerStep tz st
      \<lparr> callContent = ''damn'', callTitle = [], callTHistory = h, callTBlock = b \<rparr>)) =
   (isBlockedFromForum (fst st) \<or> 2 \<le> orZero (forumWarnings (fst st)))"
  by (simp add: ledgerStep_fst handle_blocked moderateContent_damn)

subsection \<open>The escalation sequence\<close>

text \<open>
  C1. From any user document whose warning count reads 0, three consecutive calls with
  flagged content return, in order: a warning (\<open>blocked = false\<close>, \<open>warned = true\<close>) with
  the count at 1; a temporary block with the count at 2 and \<open>forumBlockedUntil\<close> seven days
  after the clock reading of that call; a permanent block with the count at 3 and
  \<open>isBlockedFromForum\<close> set. Each call appends exactly one entry to the warning history.

  The seven days are calendar days of the server's time zone \<open>tz\<close>: the block ends at the
  time value whose local time is the local time of the clock reading plus seven times 24
  hours. When the zone has the same offset \<open>off\<close> at the clock reading and at that local
  time, this is the clock reading plus \<open>7 * 86400000\<close> milliseconds.
\<close>

theorem three_flagged_submissions:
  assumes zero: "orZero (forumWarnings u0) = 0"
    and flagged: "isAbusive (moderateContent c1 t1)" "isAbusive (moderateContent c2 t2)"
      "isAbusive (moderateContent c3 t3)"
    and call1: "handleContentModeration tz u0 db0 c1 t1 h1 b1 = (u1, db1, o1)"
    and call2: "handleContentModeration tz u1 db1 c2 t2 h2 b2 = (u2, db2, o2)"
    and call3: "handleContentModeration tz u2 db2 c3 t3 h3 b3 = (u3, db3, o3)"
  shows "(blocked o1 = False \<and> warned o1 = Some True \<and> warnings o1 = Some 1
          \<and> forumWarnings u1 = Some 1
          \<and> forumWarningHistory u1 = Some (orEmpty (forumWarningHistory u0) @
              [\<lparr> entryDate = h1,
                 entryReason = ''Detected abusive language: ''
                               @ join '', '' (detectedWords (moderateContent c1 t1)),
                 entryContent = (if t1 \<noteq> [] then t1 @ '' '' @ c1 else c1) \<rparr>]))
       \<and> (blocked o2 = True \<and> warnings o2 = Some 2
          \<and> message o2 = Some ''You have been temporarily blocked from the forum for 7 days due to repeated violations.''
          \<and> blockedUntil o2 = Some (UTC tz (LocalTime tz b2 + 7 * 86400000))
          \<and> forumWarnings u2 = Some 2
          \<and> forumBlockedUntil u2 = Some (UTC tz (LocalTime tz b2 + 7 * 86400000))
          \<and> (LocalTime tz b2 = b2 + off
               \<and> UTC tz (b2 + off + 7 * 86400000) = b2 + 7 * 86400000 \<longrightarrow>
             blockedUntil o2 = Some (b2 + 7 * 86400000)
             \<and> forumBlockedUntil u2 = Some (b2 + 7 * 86400000))
          \<and> forumWarningHistory u2 = Some (orEmpty (forumWarningHistory u1) @
              [\<lparr> entryDate = h2,
                 entryReason = ''Detected abusive language: ''
                               @ join '', '' (detectedWords (moderateContent c2 t2)),
                 entryContent = (if t2 \<noteq> [] then t2 @ '' '' @ c2 else c2) \<rparr>]))
       \<and> (blocked o3 = True \<and> warnings o3 = Some 3
          \<and> message o3 = Some ''You have been permanently blocked from the forum due to repeated violations.''
          \<and> forumWarnings u3 = Some 3
          \<and> isBlockedFromForum u3
          \<and> forumWarningHistory u3 = Some (orEmpty (forumWarningHistory u2) @
              [\<lparr> entryDate = h3,
                 entryReason = ''Detected abusive language: ''
                               @ join '', '' (detectedWords (moderateContent c3 t3)),
                 entryContent = (if t3 \<noteq> [] then t3 @ '' '' @ c3 else c3) \<rparr>]))"
proof -
  have u1: "u1 = fst (handleContentModeration tz u0 db0 c1 t1 h1 b1)"
    and o1: "o1 = snd (snd (handleContentModeration tz u0 db0 c1 t1 h1 b1))"
    by (simp_all add: call1)
  have u2: "u2 = fst (handleContentModeration tz u1 db1 c2 t2 h2 b2)"
    and o2: "o2 = snd (snd (handleContentModeration tz u1 db1 c2 t2 h2 b2))"
    by (simp_all add: call2)
  have u3: "u3 = fst (handleContentModeration tz u2 db2 c3 t3 h3 b3)"
    and o3: "o3 = snd (snd (handleContentModeration tz u2 db2 c3 t3 h3 b3))"
    by (simp_all add: call3)
  have n1: "orZero (forumWarnings u1) = 1"
    by (simp add: u1 handle_count flagged zero)
  have n2: "orZero (forumWarnings u2) = 2"
    by (simp add: u2 handle_count flagged n1)
  have first: "blocked o1 = False \<and> warned o1 = Some True \<and> warnings o1 = Some 1
          \<and> forumWarnings u1 = Some 1
          \<and> forumWarningHistory u1 = Some (orEmpty (forumWarningHistory u0) @
              [\<lparr> entryDate = h1,
                 entryReason = ''Detected abusive language: ''
                               @ join '', '' (detectedWords (moderateContent c1 t1)),
                 entryContent = (if t1 \<noteq> [] then t1 @ '' '' @ c1 else c1) \<rparr>])"
    by (simp add: u1 o1 handle_flagged_user handle_outcome flagged zero)
  have second: "blocked o2 = True \<and> warnings o2 = Some 2
          \<and> message o2 = Some ''You have been temporarily blocked from the forum for 7 days due to repeated violations.''
          \<and> blockedUntil o2 = Some (UTC tz (LocalTime tz b2 + 7 * 86400000))
          \<and> forumWarnings u2 = Some 2
          \<and> forumBlockedUntil u2 = Some (UTC tz (LocalTime tz b2 + 7 * 86400000))
          \<and> (LocalTime tz b2 = b2 + off
               \<and> UTC tz (b2 + off + 7 * 86400000) = b2 + 7 * 86400000 \<longrightarrow>
             blockedUntil o2 = Some (b2 + 7 * 86400000)
             \<and> forumBlockedUntil u2 = Some (b2 + 7 * 86400000))
          \<and> forumWarningHistory u2 = Some (orEmpty (forumWarningHistory u1) @
              [\<lparr> entryDate = h2,
                 entryReason = ''Detected abusive language: ''
                               @ join '', '' (detectedWords (moderateContent c2 t2)),
                 entryContent = (if t2 \<noteq> [] then t2 @ '' '' @ c2 else c2) \<rparr>])"
    by (simp add: u2 o2 handle_flagged_user handle_outcome flagged n1 addDays_local)
  have third: "blocked o3 = True \<and> warnings o3 = Some 3
          \<and> message o3 = Some ''You have been permanently blocked from the forum due to repeated violations.''
          \<and> forumWarnings u3 = Some 3
          \<and> isBlockedFromForum u3
          \<and> forumWarningHistory u3 = Some (orEmpty (forumWarningHistory u2) @
              [\<lparr> entryDate = h3,
                 entryReason = ''Detected abusive language: ''
                               @ join '', '' (detectedWords (moderateContent c3 t3)),
                 entryContent = (if t3 \<noteq> [] then t3 @ '' '' @ c3 else c3) \<rparr>])"
    by (simp add: u3 o3 handle_flagged_user handle_outcome flagged n2)
  from first second third show ?thesis by blast
qed

theorem three_flagged_submissions_witness:
  "(case handleContentModeration zoneIndia newUser None ''damn'' [] 10 11 of (u1, db1, o1) \<Rightarrow>
    case handleContentModeration zoneIndia u1 db1 ''damn'' [] 20 21 of (u2, db2, o2) \<Rightarrow>
    case handleContentModeration zoneIndia u2 db2 ''damn'' [] 30 31 of (u3, db3, o3) \<Rightarrow>
      warned o1 = Some True \<and> warnings o1 = Some 1 \<and> forumWarnings u1 = Some 1
      \<and> blocked o2 \<and> warnings o2 = Some 2 \<and> blockedUntil o2 = Some 604800021
      \<and> forumBlockedUntil u2 = Some 604800021
      \<and> blocked o3 \<and> warnings o3 = Some 3 \<and> isBlockedFromForum u3
      \<and> length (orEmpty (forumWarningHistory u3)) = 3)"
proof -
  obtain u1 db1 o1 where call1: "handleContentModeration zoneIndia newUser None ''damn'' [] 10 11 = (u1, db1, o1)"
    by (cases "handleContentModeration zoneIndia newUser None ''damn'' [] 10 11") blast
  obtain u2 db2 o2 where call2: "handleContentModeration zoneIndia u1 db1 ''damn'' [] 20 21 = (u2, db2, o2)"
    by (cases "handleContentModeration zoneIndia u1 db1 ''damn'' [] 20 21") blast
  obtain u3 db3 o3 where call3: "handleContentModeration zoneIndia u2 db2 ''damn'' [] 30 31 = (u3, db3, o3)"
    by (cases "handleContentModeration zoneIndia u2 db2 ''damn'' [] 30 31") blast
  have zero: "orZero (forumWarnings newUser) = 0"
    by (simp add: newUser_def orZero_def)
  have flagged: "isAbusive (moderateContent ''damn'' [])"
    by (simp add: moderateContent_damn)
  have empty: "orEmpty (forumWarningHistory newUser) = []"
    by (simp add: newUser_def orEmpty_simps)
  have offset: "LocalTime zoneIndia 21 = 21 + 19800000"
    "UTC zoneIndia (21 + 19800000 + 7 * 86400000) = 21 + 7 * 86400000"
    by (simp_all add: zoneIndia_def)
  note r = three_flagged_submissions [OF zero flagged flagged flagged call1 call2 call3,
      where off = 19800000]
  from r have "length (orEmpty (forumWarningHistory u3)) = 3"
    by (simp add: empty orEmpty_simps)
  moreover from r offset
  have "blockedUntil o2 = Some 604800021 \<and> forumBlockedUntil u2 = Some 604800021"
    by simp
  ultimately show ?thesis using r by (simp add: call1 call2 call3)
qed

subsection \<open>Invariants\<close>

text \<open>
  C2. In every state reached from a zero-valued document (no warnings, no history, no
  block: the document of a new account) by ledger calls, \<open>isBlockedFromForum\<close> holds only
  if the warning count is at least 3. A ledger call from such a state assigns
  \<open>forumBlockedUntil\<close> exactly when the scan is flagged and the count moves from 1 to 2,
  and then to seven calendar days, in the server's time zone, after its clock reading;
  every other call leaves the field as it was. So whenever a call changes the field, the
  count has just moved from 1 to exactly 2.
\<close>

theorem ledger_invariant:
  assumes "zeroValued u0"
  shows "(isBlockedFromForum (fst (runLedger tz (u0, db) cs)) \<longrightarrow>
      3 \<le> orZero (forumWarnings (fst (runLedger tz (u0, db) cs))))
   \<and> forumBlockedUntil
        (fst (handleContentModeration tz (fst (runLedger tz (u0, db) cs)) db' content title
                tHistory tBlock)) =
       (if isAbusive (moderateContent content title)
           \<and> orZero (forumWarnings (fst (runLedger tz (u0, db) cs))) = 1
        then Some (UTC tz (LocalTime tz tBlock + 7 * 86400000))
        else forumBlockedUntil (fst (runLedger tz (u0, db) cs)))
   \<and> (forumBlockedUntil
        (fst (handleContentModeration tz (fst (runLedger tz (u0, db) cs)) db' content title
                tHistory tBlock))
       \<noteq> forumBlockedUntil (fst (runLedger tz (u0, db) cs)) \<longrightarrow>
      isAbusive (moderateContent content title)
      \<and> orZero (forumWarnings (fst (runLedger tz (u0, db) cs))) = 1
      \<and> forumWarnings
           (fst (handleContentModeration tz (fst (runLedger tz (u0, db) cs)) db' content title
                   tHistory tBlock)) = Some 2)"
proof -
  let ?u = "fst (runLedger tz (u0, db) cs)"
  let ?u' = "fst (handleContentModeration tz ?u db' content title tHistory tBlock)"
  have inv: "isBlockedFromForum ?u \<longrightarrow> 3 \<le> orZero (forumWarnings ?u)"
    using assms by (intro runLedger_blocked_inv) (simp add: zeroValued_def)
  have until: "forumBlockedUntil ?u' =
       (if isAbusive (moderateContent content title) \<and> orZero (forumWarnings ?u) = 1
        then Some (UTC tz (LocalTime tz tBlock + 7 * 86400000))
        else forumBlockedUntil ?u)"
    by (simp add: handle_until addDays_local)
  have "forumWarnings ?u' = Some 2"
    if "isAbusive (moderateContent content title)" "orZero (forumWarnings ?u) = 1"
    using that by (simp add: handle_flagged_user)
  with until have only: "forumBlockedUntil ?u' \<noteq> forumBlockedUntil ?u \<longrightarrow>
      isAbusive (moderateContent content title) \<and> orZero (forumWarnings ?u) = 1
      \<and> forumWarnings ?u' = Some 2"
    by (simp split: if_splits)
  from inv until only show ?thesis by blast
qed

theorem ledger_invariant_witness:
  "zeroValued newUser
   \<and> isBlockedFromForum (fst (runLedger zoneIndia (newUser, None)
      [\<lparr> callContent = ''damn'', callTitle = [], callTHistory = 10, callTBlock = 11 \<rparr>,
       \<lparr> callContent = ''damn'', callTitle = [], callTHistory = 20, callTBlock = 21 \<rparr>,
       \<lparr> callContent = ''damn'', callTitle = [], callTHistory = 30, callTBlock = 31 \<rparr>]))
   \<and> 3 \<le> orZero (forumWarnings (fst (runLedger zoneIndia (newUser, None)
      [\<lparr> callContent = ''damn'', callTitle = [], callTHistory = 10, callTBlock = 11 \<rparr>,
       \<lparr> callContent = ''damn'', callTitle = [], callTHistory = 20, callTBlock = 21 \<rparr>,
       \<lparr> callContent = ''damn'', callTitle = [], callTHistory = 30, callTBlock = 31 \<rparr>])))
   \<and> forumBlockedUntil (fst (handleContentModeration zoneIndia
        (fst (runLedger zoneIndia (newUser, None)
          [\<lparr> callContent = ''damn'', callTitle = [], callTHistory = 10, callTBlock = 11 \<rparr>]))
        None ''damn'' [] 20 21)) = Some 604800021
   \<and> forumBlockedUntil (fst (runLedger zoneIndia (newUser, None)
          [\<lparr> callContent = ''damn'', callTitle = [], callTHistory = 10, callTBlock = 11 \<rparr>]))
       = None
   \<and> forumWarnings (fst (handleContentModeration zoneIndia
        (fst (runLedger zoneIndia (newUser, None)
          [\<lparr> callContent = ''damn'', callTitle = [], callTHistory = 10, callTBlock = 11 \<rparr>]))
        None ''damn'' [] 20 21)) = Some 2
   \<and> forumBlockedUntil (fst (handleContentModeration zoneIndia
        (fst (runLedger zoneIndia (newUser, None) [])) None ''damn'' [] 20 21)) = None"
proof -
  let ?c1 = "\<lparr> callContent = ''damn'', callTitle = [], callTHistory = 10, callTBlock = 11 \<rparr>"
  let ?c2 = "\<lparr> callContent = ''damn'', callTitle = [], callTHistory = 20, callTBlock = 21 \<rparr>"
  let ?c3 = "\<lparr> callContent = ''damn'', callTitle = [], callTHistory = 30, callTBlock = 31 \<rparr>"
  have z: "zeroValued newUser"
    by (simp add: zeroValued_def newUser_def orZero_simps orEmpty_simps)
  have b3: "isBlockedFromForum (fst (runLedger zoneIndia (newUser, None) [?c1, ?c2, ?c3]))"
    by (simp add: runLedger_def ledgerStep_damn_blocked ledgerStep_damn_count
          newUser_def orZero_simps)
  have n1: "orZero (forumWarnings (fst (runLedger zoneIndia (newUser, None) [?c1]))) = 1"
    by (simp add: runLedger_def ledgerStep_damn_count newUser_def orZero_simps)
  have u1: "forumBlockedUntil (fst (runLedger zoneIndia (newUser, None) [?c1])) = None"
    by (simp add: runLedger_def ledgerStep_fst handle_until moderateContent_damn
          newUser_def orZero_simps)
  have n0: "orZero (forumWarnings (fst (runLedger zoneIndia (newUser, None) []))) = 0"
    "forumBlockedUntil (fst (runLedger zoneIndia (newUser, None) [])) = None"
    by (simp_all add: runLedger_def newUser_def orZero_simps)
  have f: "isAbusive (moderateContent ''damn'' [])"
    by (simp add: moderateContent_damn)
  have d: "UTC zoneIndia (LocalTime zoneIndia 21 + 7 * 86400000) = 604800021"
    by (simp add: zoneIndia_def)
  note inv3 = ledger_invariant [OF z, where tz = zoneIndia and db = None
      and cs = "[?c1, ?c2, ?c3]", THEN conjunct1]
  note step1 = ledger_invariant [OF z, where tz = zoneIndia and db = None and cs = "[?c1]"
      and db' = None and content = "''damn''" and title = "[]" and tHistory = 20
      and tBlock = 21, THEN conjunct2]
  note step0 = ledger_invariant [OF z, where tz = zoneIndia and db = None and cs = "[]"
      and db' = None and content = "''damn''" and title = "[]" and tHistory = 20
      and tBlock = 21, THEN conjunct2, THEN conjunct1]
  have c1: "3 \<le> orZero (forumWarnings (fst (runLedger zoneIndia (newUser, None) [?c1, ?c2, ?c3])))"
    using inv3 b3 by (rule mp)
  have c2: "forumBlockedUntil (fst (handleContentModeration zoneIndia
        (fst (runLedger zoneIndia (newUser, None) [?c1])) None ''damn'' [] 20 21))
      = Some 604800021"
    using step1 [THEN conjunct1] by (simp only: n1 f d simp_thms if_True)
  have "forumBlockedUntil (fst (handleContentModeration zoneIndia
        (fst (runLedger zoneIndia (newUser, None) [?c1])) None ''damn'' [] 20 21))
      \<noteq> forumBlockedUntil (fst (runLedger zoneIndia (newUser, None) [?c1]))"
    by (simp only: c2 u1 option.distinct simp_thms)
  with step1 [THEN conjunct2] have c3: "forumWarnings (fst (handleContentModeration zoneIndia
        (fst (runLedger zoneIndia (newUser, None) [?c1])) None ''damn'' [] 20 21)) = Some 2"
    by (elim impE conjE)
  have c4: "forumBlockedUntil (fst (handleContentModeration zoneIndia
        (fst (runLedger zoneIndia (newUser, None) [])) None ''damn'' [] 20 21)) = None"
    using step0 by (simp only: n0 f simp_thms if_False zero_neq_one)
  show ?thesis
    by (intro conjI) (fact z b3 c1 c2 u1 c3 c4)+
qed

text \<open>
  C3. The warning count never decreases: not in one call of handleContentModeration, flagged
  or clean, from any user document; not from one call to the next within any sequence of
  calls; hence not over a whole sequence.
\<close>

theorem warningCount_monotone:
  "orZero (forumWarnings user)
     \<le> orZero (forumWarnings (fst (handleContentModeration tz user db content title tHistory tBlock)))
   \<and> orZero (forumWarnings (fst (runLedger tz st cs)))
     \<le> orZero (forumWarnings (fst (runLedger tz st (cs @ [c]))))
   \<and> orZero (forumWarnings (fst st))
     \<le> orZero (forumWarnings (fst (runLedger tz st cs)))"
  by (simp add: handle_count runLedger_snoc ledgerStep_count_mono runLedger_count_mono)

subsection \<open>Clean scans\<close>

text \<open>
  C6. When the scan result is not flagged, handleContentModeration returns the user
  document as it was (count, history, permanent block and temporary block unchanged),
  saves nothing, and returns \<open>{ blocked: false, warned: false }\<close>.
\<close>

theorem clean_scan_no_mutation:
  "\<not> isAbusive (moderateContent content title) \<Longrightarrow>
   handleContentModeration tz user db content title tHistory tBlock =
     (user, db, \<lparr> blocked = False, warned = Some False, warnings = None, message = None,
                  blockedUntil = None, outcomeWords = None \<rparr>)"
  by (rule handle_clean)

theorem clean_scan_no_mutation_witness:
  "\<not> isAbusive (moderateContent ''ok'' []) \<and>
   handleContentModeration zoneIndia newUser (Some newUser) ''ok'' [] 5 6 =
     (newUser, Some newUser,
      \<lparr> blocked = False, warned = Some False, warnings = None, message = None,
        blockedUntil = None, outcomeWords = None \<rparr>)"
proof -
  have clean: "\<not> isAbusive (moderateContent ''ok'' [])"
    by (simp add: moderateContent_ok)
  from clean_scan_no_mutation [OF clean] clean show ?thesis by simp
qed

subsection \<open>The message of a warning\<close>

text \<open>
  C9, as the code has it. On the transition of the count from 0 to 1 the message of the
  returned warning is the fixed text below: it states the number of warnings the user now
  has (1) and the number of warnings after which the permanent block comes (3).
\<close>

theorem warned_message_reports_count:
  assumes "orZero (forumWarnings user) = 0"
    and "isAbusive (moderateContent content title)"
  shows "message (snd (snd (handleContentModeration tz user db content title tHistory tBlock))) =
     Some ''Warning: Your content contains inappropriate language. You have 1 warning(s). After 3 warnings, you will be permanently blocked.''"
  using assms by (simp add: handle_outcome showInt_small)

theorem warned_message_reports_count_witness:
  "message (snd (snd (handleContentModeration zoneIndia newUser None ''damn'' [] 10 11))) =
     Some ''Warning: Your content contains inappropriate language. You have 1 warning(s). After 3 warnings, you will be permanently blocked.''"
proof -
  have zero: "orZero (forumWarnings newUser) = 0"
    by (simp add: newUser_def orZero_def)
  have flagged: "isAbusive (moderateContent ''damn'' [])"
    by (simp add: moderateContent_damn)
  show ?thesis by (rule warned_message_reports_count [OF zero flagged])
qed

text \<open>
  C9 as stated fails. The message names 3 warnings as the point of the block, so after the
  first warning two remain; the number 2 occurs nowhere in the message. The only number
  interpolated into the message is \<open>user.forumWarnings\<close>, the count reached: the 1 it shows
  is the warning received, not a distance to the temporary block that the next warning
  brings, which the message does not mention.
\<close>

theorem warned_message_counterexample:
  "orZero (forumWarnings newUser) = 0
   \<and> forumWarnings (fst (handleContentModeration zoneIndia newUser None ''damn'' [] 10 11)) = Some 1
   \<and> warned (snd (snd (handleContentModeration zoneIndia newUser None ''damn'' [] 10 11))) = Some True
   \<and> message (snd (snd (handleContentModeration zoneIndia newUser None ''damn'' [] 10 11))) =
       Some ''Warning: Your content contains inappropriate language. You have 1 warning(s). After 3 warnings, you will be permanently blocked.''
   \<and> \<not> includes_js ''Warning: Your content contains inappropriate language. You have 1 warning(s). After 3 warnings, you will be permanently blocked.''
            (showInt (3 - 1))"
  by (simp add: handle_flagged_user handle_outcome moderateContent_damn newUser_def orZero_def
        showInt_small includes_js_def sublist_code)

section \<open>Properties of the access gate\<close>

lemma ceilDiv_ceiling: "ceilDiv a msPerDay = \<lceil>real_of_int a / 86400000\<rceil>"
proof -
  have "\<lceil>real_of_int a / real_of_int 86400000\<rceil> = - (- a div 86400000)"
    by (rule ceiling_divide_eq_div)
  then show ?thesis by (simp add: ceilDiv_def msPerDay_def)
qed

lemma check_permanent:
  "isBlockedFromForum u \<Longrightarrow>
   checkForumAccess (Some u) t1 t2 t3 =
     (Some u, Json 403
        \<lparr> error = ''You have been blocked from the forum due to repeated violations of community guidelines.'',
          bodyBlocked = Some True, bodyBlockedUntil = None,
          bodyWarnings = forumWarnings u \<rparr>)"
  by (simp add: checkForumAccess_def)

lemma check_temporary:
  "\<not> isBlockedFromForum u \<Longrightarrow> forumBlockedUntil u = Some until \<Longrightarrow> t1 < until \<Longrightarrow>
   checkForumAccess (Some u) t1 t2 t3 =
     (Some u, Json 403
        \<lparr> error = ''You are temporarily blocked from the forum. Access will be restored in ''
                  @ showInt \<lceil>real_of_int (until - t2) / 86400000\<rceil> @ '' day(s).'',
          bodyBlocked = Some True, bodyBlockedUntil = Some until,
          bodyWarnings = forumWarnings u \<rparr>)"
  by (simp add: checkForumAccess_def ceilDiv_ceiling)

lemma check_no_block:
  "\<not> isBlockedFromForum u \<Longrightarrow> forumBlockedUntil u = None \<Longrightarrow>
   checkForumAccess (Some u) t1 t2 t3 = (Some u, Next u)"
  by (simp add: checkForumAccess_def)

lemma check_expired:
  "\<not> isBlockedFromForum u \<Longrightarrow> forumBlockedUntil u = Some until \<Longrightarrow> until \<le> t1 \<Longrightarrow>
   until \<le> t3 \<Longrightarrow>
   checkForumAccess (Some u) t1 t2 t3 =
     (Some (u\<lparr> forumBlockedUntil := None \<rparr>), Next (u\<lparr> forumBlockedUntil := None \<rparr>))"
  by (simp add: checkForumAccess_def save_def Let_def)

text \<open>
  C5. With one clock reading \<open>now\<close> for the whole call, checkForumAccess on a stored user
  \<^item> answers 403 with the permanent-block text when \<open>isBlockedFromForum\<close> is set;
  \<^item> otherwise answers 403 with the temporary-block text when \<open>forumBlockedUntil\<close> is set
    and \<open>now\<close> is before it, the days remaining being the ceiling of the remaining
    milliseconds divided by one day;
  \<^item> otherwise calls \<open>next()\<close>; when \<open>forumBlockedUntil\<close> is set and \<open>now\<close> is not before
    it (one millisecond past is enough), the field is cleared and the document saved
    first, and a second check of the saved document, at any clock readings, calls
    \<open>next()\<close> again and leaves the store as it is.
\<close>

theorem access_gate:
  "(isBlockedFromForum u \<longrightarrow>
      checkForumAccess (Some u) now now now =
        (Some u, Json 403
           \<lparr> error = ''You have been blocked from the forum due to repeated violations of community guidelines.'',
             bodyBlocked = Some True, bodyBlockedUntil = None,
             bodyWarnings = forumWarnings u \<rparr>))
   \<and> (\<not> isBlockedFromForum u \<and> forumBlockedUntil u = Some until \<and> now < until \<longrightarrow>
      checkForumAccess (Some u) now now now =
        (Some u, Json 403
           \<lparr> error = ''You are temporarily blocked from the forum. Access will be restored in ''
                     @ showInt \<lceil>real_of_int (until - now) / 86400000\<rceil> @ '' day(s).'',
             bodyBlocked = Some True, bodyBlockedUntil = Some until,
             bodyWarnings = forumWarnings u \<rparr>))
   \<and> (\<not> isBlockedFromForum u \<and> forumBlockedUntil u = None \<longrightarrow>
      checkForumAccess (Some u) now now now = (Some u, Next u))
   \<and> (\<not> isBlockedFromForum u \<and> forumBlockedUntil u = Some until \<and> until \<le> now \<longrightarrow>
      checkForumAccess (Some u) now now now =
        (Some (u\<lparr> forumBlockedUntil := None \<rparr>), Next (u\<lparr> forumBlockedUntil := None \<rparr>))
      \<and> checkForumAccess (Some (u\<lparr> forumBlockedUntil := None \<rparr>)) t1 t2 t3 =
        (Some (u\<lparr> forumBlockedUntil := None \<rparr>), Next (u\<lparr> forumBlockedUntil := None \<rparr>)))"
  by (simp add: check_permanent check_temporary check_no_block check_expired)

theorem access_gate_witness:
  "checkForumAccess (Some (newUser\<lparr> isBlockedFromForum := True \<rparr>)) 1000 1000 1000 =
     (Some (newUser\<lparr> isBlockedFromForum := True \<rparr>), Json 403
        \<lparr> error = ''You have been blocked from the forum due to repeated violations of community guidelines.'',
          bodyBlocked = Some True, bodyBlockedUntil = None, bodyWarnings = Some 0 \<rparr>)
   \<and> checkForumAccess (Some (newUser\<lparr> forumBlockedUntil := Some 86401000 \<rparr>)) 999 999 999 =
     (Some (newUser\<lparr> forumBlockedUntil := Some 86401000 \<rparr>), Json 403
        \<lparr> error = ''You are temporarily blocked from the forum. Access will be restored in 2 day(s).'',
          bodyBlocked = Some True, bodyBlockedUntil = Some 86401000, bodyWarnings = Some 0 \<rparr>)
   \<and> checkForumAccess (Some newUser) 1000 1000 1000 = (Some newUser, Next newUser)
   \<and> checkForumAccess (Some (newUser\<lparr> forumBlockedUntil := Some 999 \<rparr>)) 1000 1000 1000 =
     (Some newUser, Next newUser)
   \<and> checkForumAccess (Some newUser) 1000 1000 1000 = (Some newUser, Next newUser)"
proof -
  have w: "forumWarnings newUser = Some 0" "\<not> isBlockedFromForum newUser"
    "forumBlockedUntil newUser = None"
    "newUser\<lparr> forumBlockedUntil := Some 999, forumBlockedUntil := None \<rparr> = newUser"
    "newUser\<lparr> forumBlockedUntil := None \<rparr> = newUser"
    by (simp_all add: newUser_def)
  from access_gate [where u = "newUser\<lparr> isBlockedFromForum := True \<rparr>" and now = 1000]
    access_gate [where u = "newUser\<lparr> forumBlockedUntil := Some 86401000 \<rparr>"
      and until = 86401000 and now = 999]
    access_gate [where u = newUser and now = 1000]
    access_gate [where u = "newUser\<lparr> forumBlockedUntil := Some 999 \<rparr>" and until = 999
      and now = 1000 and ?t1.0 = 1000 and ?t2.0 = 1000 and ?t3.0 = 1000]
  show ?thesis by (simp add: w showInt_small)
qed

section \<open>Properties of the scanner\<close>

subsection \<open>Input that is not a text\<close>

text \<open>
  C8. On \<open>undefined\<close>, \<open>null\<close>, the empty string, a boolean, a number, a bigint, a
  symbol, a function or any other object the scanner returns \<open>{ isAbusive: false, detectedWords: [] }\<close>. The guard returns before any
  string operation is applied to the value, so nothing can throw: every path of
  containsAbusiveLanguage ends in a returned object.
\<close>

theorem non_string_input_not_flagged:
  "containsAbusiveLanguage JSUndefined =
     \<lparr> isAbusive = False, detectedWords = [], severity = None \<rparr>
   \<and> containsAbusiveLanguage JSNull =
     \<lparr> isAbusive = False, detectedWords = [], severity = None \<rparr>
   \<and> containsAbusiveLanguage (JSString []) =
     \<lparr> isAbusive = False, detectedWords = [], severity = None \<rparr>
   \<and> containsAbusiveLanguage (JSBoolean b) =
     \<lparr> isAbusive = False, detectedWords = [], severity = None \<rparr>
   \<and> containsAbusiveLanguage (JSNumber n) =
     \<lparr> isAbusive = False, detectedWords = [], severity = None \<rparr>
   \<and> containsAbusiveLanguage (JSBigInt n) =
     \<lparr> isAbusive = False, detectedWords = [], severity = None \<rparr>
   \<and> containsAbusiveLanguage JSSymbol =
     \<lparr> isAbusive = False, detectedWords = [], severity = None \<rparr>
   \<and> containsAbusiveLanguage JSFunction =
     \<lparr> isAbusive = False, detectedWords = [], severity = None \<rparr>
   \<and> containsAbusiveLanguage JSObject =
     \<lparr> isAbusive = False, detectedWords = [], severity = None \<rparr>"
  by (simp add: containsAbusiveLanguage_def)

subsection \<open>Normalisation keeps what a text contains\<close>

text \<open>
  After the first two steps of normalizeText every character is a word character or white
  space. Collapsing and trimming leave the part of a text between its first and its last
  word character as it is, wherever the text stands inside a longer one.
\<close>

lemma spaceChar_space: "spaceChar (CHR '' '')"
  by (simp add: spaceChar_def)

lemma collapse_append_nonspace:
  "\<not> spaceChar x \<Longrightarrow>
   collapseSpaces (l @ x # r) = collapseSpaces l @ collapseSpaces (x # r)"
proof (induction l rule: collapseSpaces.induct)
  case 1
  show ?case by simp
next
  case (2 c cs)
  show ?case
  proof (cases "spaceChar c")
    case True
    have "dropWhile spaceChar (cs @ x # r) = dropWhile spaceChar cs @ x # r"
      using "2.prems" by (rule dropWhile_append3)
    with True 2 show ?thesis by simp
  next
    case False
    with 2 show ?thesis by simp
  qed
qed

lemma collapse_snoc_nonspace:
  "\<not> spaceChar y \<Longrightarrow> collapseSpaces (l @ [y]) = collapseSpaces l @ [y]"
  by (simp add: collapse_append_nonspace)

lemma collapse_core:
  assumes "k \<noteq> []" "\<not> spaceChar (hd k)" "\<not> spaceChar (last k)"
  shows "collapseSpaces (a @ k @ b) = collapseSpaces a @ collapseSpaces k @ collapseSpaces b"
proof -
  obtain x k' where k: "k = x # k'" using assms(1) by (cases k) auto
  obtain m y where k2: "k = m @ [y]" using assms(1) by (cases k rule: rev_cases) auto
  have x: "\<not> spaceChar x" using assms(2) k by simp
  have y: "\<not> spaceChar y" using assms(3) k2 by simp
  have "collapseSpaces (a @ k @ b) = collapseSpaces a @ collapseSpaces (k @ b)"
    using collapse_append_nonspace [of x a "k' @ b"] x by (simp add: k)
  also have "collapseSpaces (k @ b) = collapseSpaces (m @ y # b)"
    by (simp add: k2)
  also have "\<dots> = collapseSpaces m @ collapseSpaces (y # b)"
    using y by (rule collapse_append_nonspace)
  also have "\<dots> = collapseSpaces m @ [y] @ collapseSpaces b"
    using y by simp
  also have "\<dots> = collapseSpaces k @ collapseSpaces b"
    using y by (simp add: k2 collapse_snoc_nonspace)
  finally show ?thesis .
qed

lemma collapse_spaces_only:
  "\<forall>c\<in>set s. spaceChar c \<Longrightarrow> \<forall>c\<in>set (collapseSpaces s). spaceChar c"
proof (induction s rule: collapseSpaces.induct)
  case 1
  show ?case by simp
next
  case (2 c cs)
  have c: "spaceChar c"
    using "2.prems" by simp
  have "\<forall>x\<in>set (dropWhile spaceChar cs). spaceChar x"
    using "2.prems" by (auto dest: set_dropWhileD)
  with c have "\<forall>x\<in>set (collapseSpaces (dropWhile spaceChar cs)). spaceChar x"
    by (rule "2.IH"(1))
  with c show ?case
    by (simp add: spaceChar_space)
qed

lemma collapse_hd:
  "k \<noteq> [] \<Longrightarrow> \<not> spaceChar (hd k) \<Longrightarrow>
   collapseSpaces k \<noteq> [] \<and> hd (collapseSpaces k) = hd k"
  by (cases k) auto

lemma collapse_last:
  "k \<noteq> [] \<Longrightarrow> \<not> spaceChar (last k) \<Longrightarrow> last (collapseSpaces k) = last k"
  by (cases k rule: rev_cases) (auto simp: collapse_snoc_nonspace)

lemma trim_spaces_only:
  assumes "\<forall>c\<in>set s. spaceChar c"
  shows "trim s = []"
proof -
  have nil: "dropWhile spaceChar s = []"
    using assms by (simp add: dropWhile_eq_Nil_conv)
  show ?thesis unfolding trim_def nil by simp
qed

lemma trim_keeps_core:
  assumes "k \<noteq> []" "\<not> spaceChar (hd k)" "\<not> spaceChar (last k)"
  shows "\<exists>x' y'. trim (x @ k @ y) = x' @ k @ y'"
proof -
  obtain a k' where k: "k = a # k'" using assms(1) by (cases k) auto
  obtain m b where k2: "k = m @ [b]" using assms(1) by (cases k rule: rev_cases) auto
  have a: "\<not> spaceChar a" using assms(2) k by simp
  have b: "\<not> spaceChar b" using assms(3) k2 by simp
  define x1 where "x1 = dropWhile spaceChar x"
  define y1 where "y1 = dropWhile spaceChar (rev y)"
  have front: "dropWhile spaceChar (x @ k @ y) = x1 @ k @ y"
    using a by (simp add: k dropWhile_append3 x1_def)
  have "rev (x1 @ k @ y) = rev y @ b # (rev m @ rev x1)"
    by (simp add: k2)
  moreover have "dropWhile spaceChar (rev y @ b # (rev m @ rev x1)) = y1 @ b # (rev m @ rev x1)"
    using b by (simp add: dropWhile_append3 y1_def)
  ultimately have "dropWhile spaceChar (rev (x1 @ k @ y)) = y1 @ b # (rev m @ rev x1)"
    by simp
  then have "trim (x @ k @ y) = rev (y1 @ b # (rev m @ rev x1))"
    by (simp only: trim_def front)
  also have "\<dots> = x1 @ k @ rev y1"
    by (simp add: k2)
  finally show ?thesis by blast
qed

lemma trim_core:
  assumes "k \<noteq> []" "\<not> spaceChar (hd k)" "\<not> spaceChar (last k)"
    and "\<forall>c\<in>set s1. spaceChar c" "\<forall>c\<in>set s2. spaceChar c"
  shows "trim (s1 @ k @ s2) = k"
proof -
  obtain a k' where k: "k = a # k'" using assms(1) by (cases k) auto
  obtain m b where k2: "k = m @ [b]" using assms(1) by (cases k rule: rev_cases) auto
  have a: "\<not> spaceChar a" using assms(2) k by simp
  have b: "\<not> spaceChar b" using assms(3) k2 by simp
  have "dropWhile spaceChar (s1 @ k @ s2) = k @ s2"
    using assms(4) a by (simp add: k)
  moreover have "dropWhile spaceChar (rev (k @ s2)) = rev k"
    using assms(5) b by (simp add: k2 dropWhile_append3 dropWhile_eq_Nil_conv)
  ultimately show ?thesis by (simp add: trim_def)
qed

lemma split_core:
  assumes "\<exists>c\<in>set t. \<not> spaceChar c"
  shows "\<exists>s1 k s2. t = s1 @ k @ s2 \<and> (\<forall>c\<in>set s1. spaceChar c) \<and> (\<forall>c\<in>set s2. spaceChar c)
           \<and> k \<noteq> [] \<and> \<not> spaceChar (hd k) \<and> \<not> spaceChar (last k)"
proof -
  define s1 where "s1 = takeWhile spaceChar t"
  define r where "r = dropWhile spaceChar t"
  define s2 where "s2 = rev (takeWhile spaceChar (rev r))"
  define k where "k = rev (dropWhile spaceChar (rev r))"
  have t: "t = s1 @ r"
    by (simp add: s1_def r_def)
  have r_ne: "r \<noteq> []"
    using assms by (simp add: r_def dropWhile_eq_Nil_conv)
  have hd_r: "\<not> spaceChar (hd r)"
    using r_ne unfolding r_def by (rule hd_dropWhile)
  have "r = rev (takeWhile spaceChar (rev r) @ dropWhile spaceChar (rev r))"
    by simp
  then have r_split: "r = k @ s2"
    by (simp only: rev_append k_def s2_def)
  have "hd r \<in> set (rev r)"
    using r_ne by simp
  with hd_r have "\<not> (\<forall>c\<in>set (rev r). spaceChar c)"
    by blast
  then have k_rev_ne: "dropWhile spaceChar (rev r) \<noteq> []"
    by (simp add: dropWhile_eq_Nil_conv)
  then have k_ne: "k \<noteq> []"
    by (simp add: k_def)
  have "\<not> spaceChar (hd (dropWhile spaceChar (rev r)))"
    using k_rev_ne by (rule hd_dropWhile)
  then have last_k: "\<not> spaceChar (last k)"
    using k_rev_ne by (simp add: k_def last_rev)
  have "hd (k @ s2) = hd k"
    using k_ne by (rule hd_append2)
  with hd_r have hd_k: "\<not> spaceChar (hd k)"
    by (simp add: r_split)
  have s1: "\<forall>c\<in>set s1. spaceChar c"
    unfolding s1_def by (auto dest: set_takeWhileD)
  have s2: "\<forall>c\<in>set s2. spaceChar c"
    unfolding s2_def by (auto dest: set_takeWhileD)
  have "t = s1 @ k @ s2"
    using t r_split by simp
  with s1 s2 k_ne hd_k last_k show ?thesis by blast
qed

lemma trim_collapse_sublist:
  "sublist (trim (collapseSpaces b)) (trim (collapseSpaces (a @ b @ c)))"
proof (cases "\<exists>x\<in>set b. \<not> spaceChar x")
  case False
  then have "\<forall>x\<in>set (collapseSpaces b). spaceChar x"
    by (intro collapse_spaces_only) blast
  then have "trim (collapseSpaces b) = []" by (rule trim_spaces_only)
  then show ?thesis by simp
next
  case True
  then obtain s1 k s2 where b: "b = s1 @ k @ s2"
    and s1: "\<forall>c\<in>set s1. spaceChar c" and s2: "\<forall>c\<in>set s2. spaceChar c"
    and k: "k \<noteq> []" "\<not> spaceChar (hd k)" "\<not> spaceChar (last k)"
    using split_core by blast
  let ?k = "collapseSpaces k"
  have ck: "?k \<noteq> []" "\<not> spaceChar (hd ?k)" "\<not> spaceChar (last ?k)"
    using k by (simp_all add: collapse_hd collapse_last)
  have "collapseSpaces b = collapseSpaces s1 @ ?k @ collapseSpaces s2"
    unfolding b by (rule collapse_core [OF k])
  then have inner: "trim (collapseSpaces b) = ?k"
    using trim_core [OF ck collapse_spaces_only [OF s1] collapse_spaces_only [OF s2]] by simp
  have "a @ b @ c = (a @ s1) @ k @ (s2 @ c)" by (simp add: b)
  then have "collapseSpaces (a @ b @ c) =
      collapseSpaces (a @ s1) @ ?k @ collapseSpaces (s2 @ c)"
    using collapse_core [OF k, of "a @ s1" "s2 @ c"] by simp
  then obtain x' y' where "trim (collapseSpaces (a @ b @ c)) = x' @ ?k @ y'"
    using trim_keeps_core [OF ck, of "collapseSpaces (a @ s1)" "collapseSpaces (s2 @ c)"]
    by auto
  then have "sublist ?k (trim (collapseSpaces (a @ b @ c)))"
    by simp
  with inner show ?thesis by simp
qed

lemma normalizeText_sublist:
  "sublist (normalizeText v) (normalizeText (pre @ v @ post))"
  by (simp add: normalizeText_def toLowerCase_def replaceSpecial_def trim_collapse_sublist)

lemma normalizeText_case:
  "toLowerCase v = toLowerCase w \<Longrightarrow> normalizeText v = normalizeText w"
  by (simp add: normalizeText_def)

lemma set_dedupe: "set (dedupe xs) = set xs"
  by (induction xs rule: dedupe.induct) auto

lemma normalizeText_Nil: "normalizeText [] = []"
  by (simp add: normalizeText_def toLowerCase_def replaceSpecial_def trim_def)

lemma abusiveWords_normalized_nonempty:
  "w \<in> set abusiveWords \<Longrightarrow> normalizeText w \<noteq> []"
  by (auto simp: abusiveWords_def normalizeText_words)

lemma detected_scanText:
  "w \<in> set abusiveWords \<Longrightarrow> sublist (normalizeText w) (normalizeText text) \<Longrightarrow>
   isAbusive (scanText text) \<and> w \<in> set (detectedWords (scanText text))"
  by (auto simp: scanText_def Let_def set_dedupe matchWords_sublist filter_empty_conv)

lemma listed_term_detected:
  assumes w: "w \<in> set abusiveWords" and v: "normalizeText v = normalizeText w"
  shows "isAbusive (containsAbusiveLanguage (JSString (pre @ v @ post)))
       \<and> w \<in> set (detectedWords (containsAbusiveLanguage (JSString (pre @ v @ post))))"
proof -
  have "normalizeText v \<noteq> []" using abusiveWords_normalized_nonempty [OF w] v by simp
  then have "v \<noteq> []" using normalizeText_Nil by auto
  then have scan: "containsAbusiveLanguage (JSString (pre @ v @ post)) = scanText (pre @ v @ post)"
    by (simp add: containsAbusiveLanguage_def)
  have "sublist (normalizeText w) (normalizeText (pre @ v @ post))"
    using normalizeText_sublist [of v pre post] v by simp
  from detected_scanText [OF w this] scan show ?thesis by simp
qed

subsection \<open>Listed terms\<close>

text \<open>
  C4. If a text contains a listed term, in any casing (or, more generally, written so that
  it normalises like the term) and with anything before and after it, then the scanner
  flags the text and returns that listed term among the detected words.
\<close>

theorem listed_term_is_flagged:
  assumes "w \<in> set abusiveWords"
    and "toLowerCase v = toLowerCase w \<or> normalizeText v = normalizeText w"
  shows "isAbusive (containsAbusiveLanguage (JSString (pre @ v @ post)))
       \<and> w \<in> set (detectedWords (containsAbusiveLanguage (JSString (pre @ v @ post))))"
proof -
  have "normalizeText v = normalizeText w"
    using assms(2) normalizeText_case by blast
  with assms(1) show ?thesis by (rule listed_term_detected)
qed

theorem listed_term_is_flagged_witness:
  "isAbusive (containsAbusiveLanguage (JSString ''Go and KILL Yourself!!''))
   \<and> ''kill yourself'' \<in> set (detectedWords
         (containsAbusiveLanguage (JSString ''Go and KILL Yourself!!'')))
   \<and> isAbusive (containsAbusiveLanguage (JSString ''oh, shut-up...''))
   \<and> ''shut up'' \<in> set (detectedWords (containsAbusiveLanguage (JSString ''oh, shut-up...'')))"
proof -
  have w1: "''kill yourself'' \<in> set abusiveWords" and w2: "''shut up'' \<in> set abusiveWords"
    by (simp_all add: abusiveWords_def)
  have v1: "toLowerCase ''KILL Yourself'' = toLowerCase ''kill yourself''
            \<or> normalizeText ''KILL Yourself'' = normalizeText ''kill yourself''"
    by code_simp
  have "normalizeText ''shut-up'' = ''shut up''"
    by (simp add: normalizeText_def trim_def replaceSpecial_def toLowerCase_def
          toLowerChar_def wordChar_def spaceChar_def)
  then have v2: "toLowerCase ''shut-up'' = toLowerCase ''shut up''
            \<or> normalizeText ''shut-up'' = normalizeText ''shut up''"
    by (simp add: normalizeText_words)
  from listed_term_is_flagged [OF w1 v1, of "''Go and ''" "''!!''"]
    listed_term_is_flagged [OF w2 v2, of "''oh, ''" "''...''"]
  show ?thesis by simp
qed

subsection \<open>Censored entries and embedded terms\<close>

lemma letter_detected:
  assumes "w \<in> set abusiveWords" and "normalizeText [c] = normalizeText w"
    and "c \<in> set text"
  shows "isAbusive (containsAbusiveLanguage (JSString text))
       \<and> w \<in> set (detectedWords (containsAbusiveLanguage (JSString text)))"
proof -
  obtain pre post where "text = pre @ [c] @ post"
    using assms(3) by (auto dest: split_list)
  with listed_term_detected [OF assms(1) assms(2), of pre post] show ?thesis by simp
qed

lemma substring_detected:
  assumes "w \<in> set abusiveWords" and "normalizeText v = normalizeText w"
    and "sublist v text"
  shows "isAbusive (containsAbusiveLanguage (JSString text))
       \<and> w \<in> set (detectedWords (containsAbusiveLanguage (JSString text)))"
proof -
  obtain pre post where "text = pre @ v @ post"
    using assms(3) by (auto simp: sublist_def)
  with listed_term_detected [OF assms(1) assms(2), of pre post] show ?thesis by simp
qed

lemma normalizeText_letters:
  "normalizeText ''f'' = ''f''" "normalizeText ''F'' = ''f''"
  "normalizeText ''s'' = ''s''" "normalizeText ''S'' = ''s''"
  "normalizeText ''b'' = ''b''" "normalizeText ''B'' = ''b''"
  "normalizeText ''a'' = ''a''" "normalizeText ''A'' = ''a''"
  by code_simp+

lemma abusiveWords_members:
  "''f***'' \<in> set abusiveWords" "''s***'' \<in> set abusiveWords"
  "''b****'' \<in> set abusiveWords" "''a**'' \<in> set abusiveWords"
  "''a***'' \<in> set abusiveWords" "''hell'' \<in> set abusiveWords"
  by (simp_all add: abusiveWords_def)

text \<open>
  C10. The entries \<open>f***\<close>, \<open>s***\<close>, \<open>b****\<close>, \<open>a**\<close> and \<open>a***\<close> are normalised before
  matching and become the single letters f, s, b, a and a. So every text with a letter
  f, s, b or a in it, in either case and anywhere in a word, is flagged with the
  censored entry among the detected words (both entries for the letter a). In the same
  way every text that contains \<open>hell\<close>, for instance inside \<open>hello\<close> or \<open>shell\<close>, is flagged
  with \<open>hell\<close> detected.
\<close>

theorem censored_entries_match_letters:
  "normalizeText ''f***'' = ''f'' \<and> normalizeText ''s***'' = ''s''
   \<and> normalizeText ''b****'' = ''b'' \<and> normalizeText ''a**'' = ''a''
   \<and> normalizeText ''a***'' = ''a''
   \<and> (CHR ''f'' \<in> set text \<or> CHR ''F'' \<in> set text \<longrightarrow>
        isAbusive (containsAbusiveLanguage (JSString text))
        \<and> ''f***'' \<in> set (detectedWords (containsAbusiveLanguage (JSString text))))
   \<and> (CHR ''s'' \<in> set text \<or> CHR ''S'' \<in> set text \<longrightarrow>
        isAbusive (containsAbusiveLanguage (JSString text))
        \<and> ''s***'' \<in> set (detectedWords (containsAbusiveLanguage (JSString text))))
   \<and> (CHR ''b'' \<in> set text \<or> CHR ''B'' \<in> set text \<longrightarrow>
        isAbusive (containsAbusiveLanguage (JSString text))
        \<and> ''b****'' \<in> set (detectedWords (containsAbusiveLanguage (JSString text))))
   \<and> (CHR ''a'' \<in> set text \<or> CHR ''A'' \<in> set text \<longrightarrow>
        isAbusive (containsAbusiveLanguage (JSString text))
        \<and> ''a**'' \<in> set (detectedWords (containsAbusiveLanguage (JSString text)))
        \<and> ''a***'' \<in> set (detectedWords (containsAbusiveLanguage (JSString text))))
   \<and> (sublist ''hell'' text \<or> sublist ''hello'' text \<or> sublist ''shell'' text \<longrightarrow>
        isAbusive (containsAbusiveLanguage (JSString text))
        \<and> ''hell'' \<in> set (detectedWords (containsAbusiveLanguage (JSString text))))"
proof -
  have hell: "sublist ''hell'' text"
    if "sublist ''hell'' text \<or> sublist ''hello'' text \<or> sublist ''shell'' text"
  proof -
    have "sublist ''hell'' ''hello''" "sublist ''hell'' ''shell''"
      by (simp_all add: sublist_code)
    with that show ?thesis by (blast intro: sublist_order.order_trans)
  qed
  note n = normalizeText_words normalizeText_letters
  note m = abusiveWords_members
  have f: "isAbusive (containsAbusiveLanguage (JSString text))
        \<and> ''f***'' \<in> set (detectedWords (containsAbusiveLanguage (JSString text)))"
    if "CHR ''f'' \<in> set text \<or> CHR ''F'' \<in> set text"
    using that letter_detected [of "''f***''" "CHR ''f''" "text"]
      letter_detected [of "''f***''" "CHR ''F''" "text"] by (auto simp: n m)
  have s: "isAbusive (containsAbusiveLanguage (JSString text))
        \<and> ''s***'' \<in> set (detectedWords (containsAbusiveLanguage (JSString text)))"
    if "CHR ''s'' \<in> set text \<or> CHR ''S'' \<in> set text"
    using that letter_detected [of "''s***''" "CHR ''s''" "text"]
      letter_detected [of "''s***''" "CHR ''S''" "text"] by (auto simp: n m)
  have b: "isAbusive (containsAbusiveLanguage (JSString text))
        \<and> ''b****'' \<in> set (detectedWords (containsAbusiveLanguage (JSString text)))"
    if "CHR ''b'' \<in> set text \<or> CHR ''B'' \<in> set text"
    using that letter_detected [of "''b****''" "CHR ''b''" "text"]
      letter_detected [of "''b****''" "CHR ''B''" "text"] by (auto simp: n m)
  have a2: "isAbusive (containsAbusiveLanguage (JSString text))
        \<and> ''a**'' \<in> set (detectedWords (containsAbusiveLanguage (JSString text)))"
    if "CHR ''a'' \<in> set text \<or> CHR ''A'' \<in> set text"
    using that letter_detected [of "''a**''" "CHR ''a''" "text"]
      letter_detected [of "''a**''" "CHR ''A''" "text"] by (auto simp: n m)
  have a3: "''a***'' \<in> set (detectedWords (containsAbusiveLanguage (JSString text)))"
    if "CHR ''a'' \<in> set text \<or> CHR ''A'' \<in> set text"
    using that letter_detected [of "''a***''" "CHR ''a''" "text"]
      letter_detected [of "''a***''" "CHR ''A''" "text"] by (auto simp: n m)
  have h: "isAbusive (containsAbusiveLanguage (JSString text))
        \<and> ''hell'' \<in> set (detectedWords (containsAbusiveLanguage (JSString text)))"
    if "sublist ''hell'' text \<or> sublist ''hello'' text \<or> sublist ''shell'' text"
    using hell [OF that] substring_detected [of "''hell''" "''hell''" "text"] by (simp add: m)
  from f s b a2 a3 h show ?thesis
    by (simp add: normalizeText_words)
qed

theorem censored_entries_match_letters_witness:
  "isAbusive (containsAbusiveLanguage (JSString ''hello''))
   \<and> ''hell'' \<in> set (detectedWords (containsAbusiveLanguage (JSString ''hello'')))
   \<and> isAbusive (containsAbusiveLanguage (JSString ''deaf bus''))
   \<and> ''f***'' \<in> set (detectedWords (containsAbusiveLanguage (JSString ''deaf bus'')))
   \<and> ''s***'' \<in> set (detectedWords (containsAbusiveLanguage (JSString ''deaf bus'')))
   \<and> ''b****'' \<in> set (detectedWords (containsAbusiveLanguage (JSString ''deaf bus'')))
   \<and> ''a**'' \<in> set (detectedWords (containsAbusiveLanguage (JSString ''deaf bus'')))
   \<and> ''a***'' \<in> set (detectedWords (containsAbusiveLanguage (JSString ''deaf bus'')))"
  using censored_entries_match_letters [of "''hello''"]
    censored_entries_match_letters [of "''deaf bus''"]
  by (simp add: sublist_code)

subsection \<open>The spam pattern\<close>

text \<open>
  What the code does: \<open>spam_pattern\<close> is detected exactly when more than half of the
  characters are in \<open>[A-Z]\<close> and the text is longer than 10, or some character other than
  a line terminator stands five times in a row.
\<close>

lemma spam_pattern_not_listed: "''spam_pattern'' \<notin> set (matchWords t)"
  by (simp add: matchWords_def abusiveWords_def)

lemma spam_pattern_iff:
  "''spam_pattern'' \<in> set (detectedWords (scanText text)) \<longleftrightarrow>
   excessiveCaps text \<or> repeatedChars text"
  by (simp add: scanText_def Let_def set_dedupe spam_pattern_not_listed)

lemma repeatedChars_Cons: "repeatedChars t \<Longrightarrow> repeatedChars (p # t)"
  by (cases t rule: repeatedChars.cases) auto

lemma repeatedChars_run:
  "\<not> lineTerminator c \<Longrightarrow> repeatedChars (pre @ replicate 5 c @ post)"
  by (induction pre) (simp_all add: eval_nat_numeral repeatedChars_Cons)

lemma repeatedChars_has_run:
  "repeatedChars text \<Longrightarrow>
   \<exists>pre c post. text = pre @ replicate 5 c @ post \<and> \<not> lineTerminator c"
proof (induction "text" rule: repeatedChars.induct)
  case (1 a b c d e cs)
  show ?case
  proof (cases "\<not> lineTerminator a \<and> a = b \<and> a = c \<and> a = d \<and> a = e")
    case True
    then have "a # b # c # d # e # cs = [] @ replicate 5 a @ cs"
      by (auto simp: eval_nat_numeral)
    with True show ?thesis by blast
  next
    case False
    with 1 obtain pre x post
      where "b # c # d # e # cs = pre @ replicate 5 x @ post" "\<not> lineTerminator x"
      by auto
    then have "a # b # c # d # e # cs = (a # pre) @ replicate 5 x @ post"
      by simp
    with \<open>\<not> lineTerminator x\<close> show ?thesis by blast
  qed
qed simp_all

lemma repeatedChars_iff:
  "repeatedChars text \<longleftrightarrow>
   (\<exists>pre c post. text = pre @ replicate 5 c @ post \<and> \<not> lineTerminator c)"
  using repeatedChars_has_run repeatedChars_run by blast

lemma spam_pattern_examples:
  "''spam_pattern'' \<in> set (detectedWords (containsAbusiveLanguage (JSString ''AAAAAAAAAAAA'')))"
  "''spam_pattern'' \<in> set (detectedWords (containsAbusiveLanguage (JSString ''aaaaa'')))"
  "''spam_pattern'' \<notin> set (detectedWords (containsAbusiveLanguage (JSString ''hello world'')))"
  "''spam_pattern'' \<notin> set (detectedWords (containsAbusiveLanguage (JSString ''aaaa'')))"
  by (simp_all add: containsAbusiveLanguage_def spam_pattern_iff excessiveCaps_def upperAZ_def
        lineTerminator_def)

text \<open>
  C7 at a run of line feeds. The text of five line feeds is one character five times in
  a row, yet the scanner returns it unflagged, without \<open>spam_pattern\<close>: the \<open>.\<close> of
  \<open>/(.)\1{4,}/\<close> matches no line terminator.
\<close>

theorem five_newlines_not_spam:
  "containsAbusiveLanguage (JSString (replicate 5 (CHR 0x0A))) =
     \<lparr> isAbusive = False, detectedWords = [], severity = Some ''low'' \<rparr>
   \<and> ''spam_pattern'' \<notin> set (detectedWords
         (containsAbusiveLanguage (JSString (replicate 5 (CHR 0x0A)))))"
proof -
  have r: "replicate 5 (CHR 0x0A) = [CHR 0x0A, CHR 0x0A, CHR 0x0A, CHR 0x0A, CHR 0x0A]"
    by (simp add: eval_nat_numeral)
  have n: "normalizeText [CHR 0x0A, CHR 0x0A, CHR 0x0A, CHR 0x0A, CHR 0x0A] = []"
    by (simp add: normalizeText_def trim_def replaceSpecial_def toLowerCase_def
          toLowerChar_def wordChar_def spaceChar_def)
  have m: "matchWords [] = []"
    by (simp add: matchWords_sublist abusiveWords_def normalizeText_words sublist_code)
  have "containsAbusiveLanguage (JSString (replicate 5 (CHR 0x0A))) =
     \<lparr> isAbusive = False, detectedWords = [], severity = Some ''low'' \<rparr>"
    unfolding r
    by (simp add: containsAbusiveLanguage_def scanText_def n m excessiveCaps_def
          lineTerminator_def)
  then show ?thesis by simp
qed

end
